theory Spec2Isabelle
  imports Main "HOL-Library.Product_Lexorder"
begin

section \<open>Python values and exceptions\<close>

text \<open>
  The exceptions that the modelled code can raise. Every function that may raise returns
  a sum: \<open>Inl e\<close> is the exception \<open>e\<close> propagating, \<open>Inr v\<close> is the value returned.
  \<open>DecodeError\<close> stands for what \<open>json.loads(response.data.decode('utf-8'))\<close> raises on
  a body that is not UTF-8 encoded JSON, \<open>HTTPError\<close> for any exception of
  \<open>http.request\<close> other than \<open>MaxRetryError\<close>.
\<close>

datatype py_error =
  IndexError | KeyError | TypeError | AttributeError | ValueError | DecodeError | HTTPError

text \<open>
  The values that \<open>json.loads\<close> produces. An object is an association list in
  insertion order that holds every key once. \<open>PyNone\<close> is also what a function
  returns by \<open>return None\<close>.
\<close>

datatype pyval =
    PyNone
  | PyBool bool
  | PyInt int
  | PyFloat string
  | PyStr string
  | PyList "pyval list"
  | PyDict "(string \<times> pyval) list"

text \<open>\<open>len(v)\<close>: defined on lists, strings and dicts, \<open>TypeError\<close> on the rest.\<close>

fun py_len :: "pyval \<Rightarrow> py_error + nat" where
  "py_len (PyList xs) = Inr (length xs)"
| "py_len (PyStr s) = Inr (length s)"
| "py_len (PyDict kvs) = Inr (length kvs)"
| "py_len _ = Inl TypeError"

text \<open>
  \<open>data.extend(new_data)\<close>: only a list has the method (\<open>AttributeError\<close> otherwise);
  the argument is iterated, a string by characters and a dict by keys.
\<close>

fun py_iter :: "pyval \<Rightarrow> py_error + pyval list" where
  "py_iter (PyList ys) = Inr ys"
| "py_iter (PyStr s) = Inr (map (\<lambda>c. PyStr [c]) s)"
| "py_iter (PyDict kvs) = Inr (map (\<lambda>kv. PyStr (fst kv)) kvs)"
| "py_iter _ = Inl TypeError"

fun py_extend :: "pyval \<Rightarrow> pyval \<Rightarrow> py_error + pyval" where
  "py_extend (PyList xs) new_data =
     (case py_iter new_data of Inl e \<Rightarrow> Inl e | Inr ys \<Rightarrow> Inr (PyList (xs @ ys)))"
| "py_extend _ new_data = Inl AttributeError"

text \<open>\<open>v[key]\<close> with a string key: a lookup in a dict, \<open>TypeError\<close> on every other value.\<close>

fun py_getitem :: "pyval \<Rightarrow> string \<Rightarrow> py_error + pyval" where
  "py_getitem (PyDict kvs) k = (case map_of kvs k of None \<Rightarrow> Inl KeyError | Some v \<Rightarrow> Inr v)"
| "py_getitem _ k = Inl TypeError"

text \<open>\<open>xs[i]\<close> on a list: a negative index counts from the end, out of range raises.\<close>

definition py_index :: "'a list \<Rightarrow> int \<Rightarrow> py_error + 'a" where
  "py_index xs i =
     (let n = int (length xs);
          j = (if i < 0 then i + n else i)
      in if j < 0 \<or> n \<le> j then Inl IndexError else Inr (xs ! nat j))"

subsection \<open>Strings\<close>

text \<open>\<open>str(n)\<close> and \<open>"{}".format(n)\<close> of a non-negative integer: its decimal digits.\<close>

definition digit_char :: "nat \<Rightarrow> char" where
  "digit_char d = ''0123456789'' ! (d mod 10)"

function str_nat :: "nat \<Rightarrow> string" where
  "str_nat n = (if n < 10 then [digit_char n] else str_nat (n div 10) @ [digit_char (n mod 10)])"
  by pat_completeness auto
termination
  by (relation "measure id") auto

declare str_nat.simps [simp del]

text \<open>\<open>s.split('/')\<close>: the pieces between the slashes, one more than there are slashes.\<close>

fun split_slash :: "string \<Rightarrow> string list" where
  "split_slash [] = [[]]"
| "split_slash (c # cs) =
     (if c = CHR ''/'' then [] # split_slash cs
      else (case split_slash cs of [] \<Rightarrow> [[c]] | p # ps \<Rightarrow> (c # p) # ps))"

section \<open>The context: logger and network\<close>

text \<open>
  The state that the code acts on: the messages passed to \<open>ctx.logger.info\<close> and the URLs
  requested with \<open>http.request\<close>, both oldest first. Every request is a GET with the same
  \<open>Accept\<close> header, so a request is identified by its URL.
\<close>

record world =
  logged :: "string list"
  requests :: "string list"

definition logger_info :: "string \<Rightarrow> world \<Rightarrow> world" where
  "logger_info msg w = w\<lparr>logged := logged w @ [msg]\<rparr>"

text \<open>
  What a request comes back with: \<open>MaxRetryError\<close> raised, another exception raised, or
  a response, given by what decoding and parsing its body yields.
\<close>

datatype http_result =
    MaxRetryError
  | RequestError py_error
  | Response "py_error + pyval"

text \<open>
  The network is any function from the number of requests made before and the URL
  requested to the outcome of the request.
\<close>

type_synonym server = "nat \<Rightarrow> string \<Rightarrow> http_result"

definition http_request :: "server \<Rightarrow> string \<Rightarrow> world \<Rightarrow> http_result \<times> world" where
  "http_request srv u w = (srv (length (requests w)) u, w\<lparr>requests := requests w @ [u]\<rparr>)"

section \<open>GithubRepo\<close>

definition max_elements_per_page :: nat where
  "max_elements_per_page = 100"

definition max_pages :: nat where
  "max_pages = 10"

subsection \<open>URL resolution\<close>

text \<open>
  \<open>_parse_github_url(position, log_text)\<close>; every \<open>log_text\<close> of the source ends in its
  only placeholder, so it is given by the text before the placeholder.
\<close>

definition parse_github_url ::
  "string \<Rightarrow> int \<Rightarrow> string \<Rightarrow> world \<Rightarrow> (py_error + string) \<times> world" where
  "parse_github_url url position log_text w =
     (case py_index (split_slash url) position of
        Inl e \<Rightarrow> (Inl e, w)
      | Inr element_parsed \<Rightarrow> (Inr element_parsed, logger_info (log_text @ element_parsed) w))"

definition get_owner :: "string \<Rightarrow> world \<Rightarrow> (py_error + string) \<times> world" where
  "get_owner url w = parse_github_url url (- 2) ''Getting owner of repo: '' w"

definition get_name :: "string \<Rightarrow> world \<Rightarrow> (py_error + string) \<times> world" where
  "get_name url w = parse_github_url url (- 1) ''Getting name of repo: '' w"

subsection \<open>Paginated fetch\<close>

text \<open>\<open>extra_params\<close> is \<open>None\<close> or a string; the empty string is falsy.\<close>

definition get_api_url :: "string \<Rightarrow> string option \<Rightarrow> string" where
  "get_api_url api_endpoint extra_params =
     (let url = api_endpoint @ ''?'';
          url = url @ (case extra_params of
                         None \<Rightarrow> ''''
                       | Some p \<Rightarrow> if p \<noteq> [] then p @ ''&'' else '''');
          url = url @ ''per_page='' @ str_nat max_elements_per_page
      in url)"

text \<open>The end of \<open>_paginated_api_call\<close>: log the number of elements, return the data.\<close>

definition finish :: "pyval \<Rightarrow> world \<Rightarrow> (py_error + pyval) \<times> world" where
  "finish data w =
     (case py_len data of
        Inl e \<Rightarrow> (Inl e, w)
      | Inr n \<Rightarrow> (Inr data, logger_info (''Number of elements retrived: '' @ str_nat n) w))"

text \<open>
  One pass through the body of \<open>while paginate\<close>, entered with \<open>paginate\<close> true, and the
  passes after it.
\<close>

function paginate_loop ::
  "server \<Rightarrow> string \<Rightarrow> nat \<Rightarrow> pyval \<Rightarrow> world \<Rightarrow> (py_error + pyval) \<times> world" where
  "paginate_loop srv url page_number data w =
     (let page_number' = page_number + 1;
          page_url = url @ ''&page='' @ str_nat page_number';
          w1 = logger_info (''Making paginated API call to '' @ page_url) w;
          w2 = snd (http_request srv page_url w1)
      in case fst (http_request srv page_url w1) of
           MaxRetryError \<Rightarrow> (Inr data, w2)
         | RequestError e \<Rightarrow> (Inl e, w2)
         | Response body \<Rightarrow>
             (case body of
                Inl e \<Rightarrow> (Inl e, w2)
              | Inr new_data \<Rightarrow>
                  (case py_len new_data of
                     Inl e \<Rightarrow> (Inl e, w2)
                   | Inr n \<Rightarrow>
                       (case py_extend data new_data of
                          Inl e \<Rightarrow> (Inl e, w2)
                        | Inr data' \<Rightarrow>
                            if n = max_elements_per_page \<and> page_number' < max_pages
                            then paginate_loop srv url page_number' data' w2
                            else finish data' w2))))"
  by pat_completeness auto
termination
  by (relation "measure (\<lambda>(srv, url, page_number, data, w). max_pages - page_number)") auto

declare paginate_loop.simps [simp del]

definition paginated_api_call ::
  "server \<Rightarrow> string \<Rightarrow> string option \<Rightarrow> world \<Rightarrow> (py_error + pyval) \<times> world" where
  "paginated_api_call srv api_endpoint extra_params w =
     (let url = get_api_url api_endpoint extra_params;
          w1 = logger_info (''Making first API call to '' @ url) w;
          w2 = snd (http_request srv url w1)
      in case fst (http_request srv url w1) of
           MaxRetryError \<Rightarrow> (Inr PyNone, w2)
         | RequestError e \<Rightarrow> (Inl e, w2)
         | Response body \<Rightarrow>
             (case body of
                Inl e \<Rightarrow> (Inl e, w2)
              | Inr data \<Rightarrow>
                  (case py_len data of
                     Inl e \<Rightarrow> (Inl e, w2)
                   | Inr n \<Rightarrow>
                       if n = max_elements_per_page then paginate_loop srv url 1 data w2
                       else finish data w2)))"

subsection \<open>Endpoint methods\<close>

definition get_contributors ::
  "server \<Rightarrow> string \<Rightarrow> string \<Rightarrow> world \<Rightarrow> (py_error + pyval) \<times> world" where
  "get_contributors srv owner name w =
     (let w1 = logger_info (''Getting contributors for repo: '' @ name) w;
          api_endpoint = ''https://api.github.com/repos/'' @ owner @ ''/'' @ name @ ''/contributors''
      in paginated_api_call srv api_endpoint None w1)"

definition get_forks ::
  "server \<Rightarrow> string \<Rightarrow> string \<Rightarrow> world \<Rightarrow> (py_error + pyval) \<times> world" where
  "get_forks srv owner name w =
     (let w1 = logger_info (''Getting forks for repo: '' @ name) w;
          api_endpoint = ''https://api.github.com/repos/'' @ owner @ ''/'' @ name @ ''/forks''
      in paginated_api_call srv api_endpoint None w1)"

definition get_releases ::
  "server \<Rightarrow> string \<Rightarrow> string \<Rightarrow> world \<Rightarrow> (py_error + pyval) \<times> world" where
  "get_releases srv owner name w =
     (let w1 = logger_info (''Getting releases for repo: '' @ name) w;
          api_endpoint = ''https://api.github.com/repos/'' @ owner @ ''/'' @ name @ ''/releases''
      in paginated_api_call srv api_endpoint None w1)"

definition get_issues ::
  "server \<Rightarrow> string \<Rightarrow> string \<Rightarrow> world \<Rightarrow> (py_error + pyval) \<times> world" where
  "get_issues srv owner name w =
     (let w1 = logger_info (''Getting issues for repo: '' @ name) w;
          api_endpoint = ''https://api.github.com/repos/'' @ owner @ ''/'' @ name @ ''/issues''
      in paginated_api_call srv api_endpoint (Some ''state=all'') w1)"

definition get_commits ::
  "server \<Rightarrow> string \<Rightarrow> string \<Rightarrow> world \<Rightarrow> (py_error + pyval) \<times> world" where
  "get_commits srv owner name w =
     (let w1 = logger_info (''Getting commits for repo: '' @ name) w;
          api_endpoint = ''https://api.github.com/repos/'' @ owner @ ''/'' @ name @ ''/commits''
      in paginated_api_call srv api_endpoint None w1)"

text \<open>\<open>GithubRepo\<close> does not override \<open>get_stars\<close>: the method of \<open>Repo\<close> returns \<open>None\<close>.\<close>

definition get_stars :: "world \<Rightarrow> (py_error + pyval) \<times> world" where
  "get_stars w = (Inr PyNone, w)"

subsection \<open>The instance and its construction\<close>

text \<open>Run \<open>m\<close>; if it raises, so does the whole, otherwise go on with its value.\<close>

definition and_then ::
  "(world \<Rightarrow> (py_error + 'a) \<times> world) \<Rightarrow> ('a \<Rightarrow> world \<Rightarrow> (py_error + 'b) \<times> world) \<Rightarrow>
   world \<Rightarrow> (py_error + 'b) \<times> world" where
  "and_then m f w = (case fst (m w) of Inl e \<Rightarrow> (Inl e, snd (m w)) | Inr v \<Rightarrow> f v (snd (m w)))"

record github_repo =
  url :: string
  owner :: string
  name :: string
  contributors :: pyval
  forks :: pyval
  releases :: pyval
  stars :: pyval
  issues :: pyval
  commits :: pyval

text \<open>\<open>Repo.__init__\<close>, with the methods of \<open>GithubRepo\<close>, in the order of the source.\<close>

definition init :: "server \<Rightarrow> string \<Rightarrow> world \<Rightarrow> (py_error + github_repo) \<times> world" where
  "init srv u =
     and_then (get_owner u) (\<lambda>ow.
     and_then (get_name u) (\<lambda>nm.
     and_then (get_contributors srv ow nm) (\<lambda>cs.
     and_then (get_forks srv ow nm) (\<lambda>fs.
     and_then (get_releases srv ow nm) (\<lambda>rs.
     and_then get_stars (\<lambda>st.
     and_then (get_issues srv ow nm) (\<lambda>is.
     and_then (get_commits srv ow nm) (\<lambda>cm w.
       (Inr \<lparr>url = u, owner = ow, name = nm, contributors = cs, forks = fs, releases = rs,
             stars = st, issues = is, commits = cm\<rparr>, w)))))))))"

subsection \<open>Total-count accessors\<close>

definition get_total_contributors :: "github_repo \<Rightarrow> py_error + nat" where
  "get_total_contributors self = py_len (contributors self)"

definition get_total_forks :: "github_repo \<Rightarrow> py_error + nat" where
  "get_total_forks self = py_len (forks self)"

definition get_total_releases :: "github_repo \<Rightarrow> py_error + nat" where
  "get_total_releases self = py_len (releases self)"

definition get_total_issues :: "github_repo \<Rightarrow> py_error + nat" where
  "get_total_issues self = py_len (issues self)"

definition get_total_commits :: "github_repo \<Rightarrow> py_error + nat" where
  "get_total_commits self = py_len (commits self)"

subsection \<open>Date comparison\<close>

text \<open>
  A \<open>datetime.datetime\<close>: its fields, and what its \<open>utcoffset()\<close> returns (in seconds),
  which is \<open>None\<close> for a naive datetime.
\<close>

record datetime =
  year :: nat
  month :: nat
  day :: nat
  hour :: nat
  minute :: nat
  second :: nat
  microsecond :: nat
  utcoffset :: "int option"

definition is_leap :: "nat \<Rightarrow> bool" where
  "is_leap y = (y mod 4 = 0 \<and> (y mod 100 \<noteq> 0 \<or> y mod 400 = 0))"

definition days_in_month :: "nat \<Rightarrow> nat \<Rightarrow> nat" where
  "days_in_month y m =
     (if m = 2 \<and> is_leap y then 29
      else [31, 28, 31, 30, 31, 30, 31, 31, 30, 31, 30, 31] ! (m - 1))"

text \<open>
  \<open>c < d\<close> for a naive datetime \<open>c\<close>, which is what \<open>strptime\<close> returns for a format
  without \<open>%z\<close>: against a naive \<open>d\<close> the fields are compared as tuples, against an aware
  one the comparison raises. The \<open>utcoffset\<close> of \<open>c\<close> is not read.
\<close>

definition dt_tuple :: "datetime \<Rightarrow> nat \<times> nat \<times> nat \<times> nat \<times> nat \<times> nat \<times> nat" where
  "dt_tuple d = (year d, month d, day d, hour d, minute d, second d, microsecond d)"

definition naive_lt :: "datetime \<Rightarrow> datetime \<Rightarrow> py_error + bool" where
  "naive_lt c d =
     (case utcoffset d of
        None \<Rightarrow> Inr (dt_tuple c < dt_tuple d)
      | Some off \<Rightarrow> Inl TypeError)"

text \<open>
  \<open>datetime.strptime(s, '%Y-%m-%dT%H:%M:%SZ')\<close>. The library turns the format into a
  regular expression, matched at the start of \<open>s\<close> by backtracking, ignoring case. A
  matcher returns the ways to match a prefix of its input, as the value read and the
  rest of the input, in the order in which backtracking tries them.
\<close>

definition digit_of :: "char \<Rightarrow> nat option" where
  "digit_of c = map_of (zip ''0123456789'' [0, 1, 2, 3, 4, 5, 6, 7, 8, 9]) c"

text \<open>One digit between \<open>lo\<close> and \<open>hi\<close>: the class \<open>[lo-hi]\<close>; \<open>\d\<close> is \<open>[0-9]\<close>.\<close>

definition re_digit :: "nat \<Rightarrow> nat \<Rightarrow> string \<Rightarrow> (nat \<times> string) list" where
  "re_digit lo hi s =
     (case s of
        [] \<Rightarrow> []
      | c # r \<Rightarrow>
          (case digit_of c of
             None \<Rightarrow> []
           | Some v \<Rightarrow> if lo \<le> v \<and> v \<le> hi then [(v, r)] else []))"

text \<open>Two digits \<open>[a-b][c-d]\<close>, read as a number.\<close>

definition re_two :: "nat \<Rightarrow> nat \<Rightarrow> nat \<Rightarrow> nat \<Rightarrow> string \<Rightarrow> (nat \<times> string) list" where
  "re_two a b c d s = [(10 * x + y, r'). (x, r) \<leftarrow> re_digit a b s, (y, r') \<leftarrow> re_digit c d r]"

text \<open>One character out of \<open>cs\<close>: a literal of the format, in both cases if it is a letter.\<close>

definition re_char :: "string \<Rightarrow> string \<Rightarrow> string list" where
  "re_char cs s = (case s of [] \<Rightarrow> [] | c # r \<Rightarrow> if c \<in> set cs then [r] else [])"

text \<open>The directives, with the alternatives in the order of the library.\<close>

definition directive_Y :: "string \<Rightarrow> (nat \<times> string) list" where
  "directive_Y s = [(100 * x + y, r'). (x, r) \<leftarrow> re_two 0 9 0 9 s, (y, r') \<leftarrow> re_two 0 9 0 9 r]"

definition directive_m :: "string \<Rightarrow> (nat \<times> string) list" where
  "directive_m s = re_two 1 1 0 2 s @ re_two 0 0 1 9 s @ re_digit 1 9 s"

definition directive_d :: "string \<Rightarrow> (nat \<times> string) list" where
  "directive_d s =
     re_two 3 3 0 1 s @ re_two 1 2 0 9 s @ re_two 0 0 1 9 s @ re_digit 1 9 s @
     concat (map (re_digit 1 9) (re_char '' '' s))"

definition directive_H :: "string \<Rightarrow> (nat \<times> string) list" where
  "directive_H s = re_two 2 2 0 3 s @ re_two 0 1 0 9 s @ re_digit 0 9 s"

definition directive_M :: "string \<Rightarrow> (nat \<times> string) list" where
  "directive_M s = re_two 0 5 0 9 s @ re_digit 0 9 s"

definition directive_S :: "string \<Rightarrow> (nat \<times> string) list" where
  "directive_S s = re_two 6 6 0 1 s @ re_two 0 5 0 9 s @ re_digit 0 9 s"

text \<open>A directive followed by a literal of the format.\<close>

definition then_char ::
  "(string \<Rightarrow> (nat \<times> string) list) \<Rightarrow> string \<Rightarrow> string \<Rightarrow> (nat \<times> string) list" where
  "then_char directive cs s = [(v, r'). (v, r) \<leftarrow> directive s, r' \<leftarrow> re_char cs r]"

definition format_regex :: "string \<Rightarrow> (datetime \<times> string) list" where
  "format_regex s =
     [(\<lparr>year = Y, month = m, day = d, hour = H, minute = M, second = S, microsecond = 0,
        utcoffset = None\<rparr>, r6).
        (Y, r1) \<leftarrow> then_char directive_Y ''-'' s,
        (m, r2) \<leftarrow> then_char directive_m ''-'' r1,
        (d, r3) \<leftarrow> then_char directive_d ''Tt'' r2,
        (H, r4) \<leftarrow> then_char directive_H '':'' r3,
        (M, r5) \<leftarrow> then_char directive_M '':'' r4,
        (S, r6) \<leftarrow> then_char directive_S ''Zz'' r5]"

text \<open>
  The first match counts. \<open>ValueError\<close>: no match, input left over after the match, or
  fields that are no date and time (year 0, a day past the end of the month, a second
  above 59). \<open>TypeError\<close>: the argument is not a string.
\<close>

definition strptime :: "pyval \<Rightarrow> py_error + datetime" where
  "strptime v =
     (case v of
        PyStr s \<Rightarrow>
          (case format_regex s of
             [] \<Rightarrow> Inl ValueError
           | (t, rest) # others \<Rightarrow>
               if rest \<noteq> [] then Inl ValueError
               else if year t < 1 \<or> days_in_month (year t) (month t) < day t \<or> 59 < second t
               then Inl ValueError
               else Inr t)
      | _ \<Rightarrow> Inl TypeError)"

definition is_commit_before_date :: "pyval \<Rightarrow> datetime \<Rightarrow> py_error + bool" where
  "is_commit_before_date commit date =
     (case py_getitem commit ''commit'' of
        Inl e \<Rightarrow> Inl e
      | Inr c \<Rightarrow>
          (case py_getitem c ''author'' of
             Inl e \<Rightarrow> Inl e
           | Inr a \<Rightarrow>
               (case py_getitem a ''date'' of
                  Inl e \<Rightarrow> Inl e
                | Inr s \<Rightarrow>
                    (case strptime s of
                       Inl e \<Rightarrow> Inl e
                     | Inr commit_date \<Rightarrow> naive_lt commit_date date))))"

section \<open>Notions used to state the properties\<close>

text \<open>
  The URL of the request for page \<open>k\<close>, counted from 1, of a paginated call whose first
  URL is \<open>u\<close>.
\<close>

definition page_url :: "string \<Rightarrow> nat \<Rightarrow> string" where
  "page_url u k = (if k \<le> 1 then u else u @ ''&page='' @ str_nat k)"

text \<open>The world after the first request of a paginated call, to \<open>u\<close>.\<close>

definition first_world :: "string \<Rightarrow> world \<Rightarrow> world" where
  "first_world u w =
     w\<lparr>logged := logged w @ [''Making first API call to '' @ u], requests := requests w @ [u]\<rparr>"

text \<open>The world after the loop has requested the \<open>m\<close> pages that follow page \<open>p\<close>.\<close>

definition pages_world :: "string \<Rightarrow> nat \<Rightarrow> nat \<Rightarrow> world \<Rightarrow> world" where
  "pages_world u p m w =
     w\<lparr>logged := logged w @
                 map (\<lambda>k. ''Making paginated API call to '' @ page_url u k) [Suc p..<Suc p + m],
       requests := requests w @ map (page_url u) [Suc p..<Suc p + m]\<rparr>"

text \<open>
  Mocked endpoints: one that answers the request for page \<open>k + 1\<close> of \<open>u\<close>, when it is
  request number \<open>k\<close>, with the entry \<open>k\<close> of a script, and one that answers every
  request with a full page.
\<close>

definition scripted :: "string \<Rightarrow> http_result list \<Rightarrow> server" where
  "scripted u rs k v =
     (if k < length rs \<and> v = page_url u (Suc k) then rs ! k else RequestError HTTPError)"

definition endless :: server where
  "endless k v = Response (Inr (PyList (replicate 100 (PyInt (int k)))))"

definition records :: "nat \<Rightarrow> int \<Rightarrow> pyval list" where
  "records n i = replicate n (PyInt i)"

definition json_array :: "pyval list \<Rightarrow> http_result" where
  "json_array xs = Response (Inr (PyList xs))"

definition world0 :: world where
  "world0 = \<lparr>logged = [], requests = []\<rparr>"

text \<open>Segments put together with slashes: the text that \<open>split('/')\<close> takes apart.\<close>

fun join_slash :: "string list \<Rightarrow> string" where
  "join_slash [] = []"
| "join_slash [s] = s"
| "join_slash (s # t # ts) = s @ CHR ''/'' # join_slash (t # ts)"

text \<open>A network on which no request gets through.\<close>

definition unreachable :: server where
  "unreachable k v = MaxRetryError"

text \<open>An endpoint that answers request number \<open>k\<close> with three records numbered \<open>k\<close>.\<close>

definition small :: server where
  "small k v = json_array (records 3 (int k))"

text \<open>
  What the constructor of \<open>datetime\<close> accepts, \<open>MINYEAR\<close> being 1 and \<open>MAXYEAR\<close> 9999.
\<close>

definition valid_datetime :: "datetime \<Rightarrow> bool" where
  "valid_datetime d =
     (1 \<le> year d \<and> year d \<le> 9999 \<and> 1 \<le> month d \<and> month d \<le> 12 \<and>
      1 \<le> day d \<and> day d \<le> days_in_month (year d) (month d) \<and>
      hour d < 24 \<and> minute d < 60 \<and> second d < 60 \<and> microsecond d < 1000000)"

text \<open>
  The position of a date and time on the time line: the microseconds since the start of
  the first of January of the year 1, by counting the days of the years and months
  that have passed.
\<close>

definition days_in_year :: "nat \<Rightarrow> nat" where
  "days_in_year y = (if is_leap y then 366 else 365)"

definition ordinal :: "nat \<Rightarrow> nat \<Rightarrow> nat \<Rightarrow> nat" where
  "ordinal y m d =
     sum_list (map days_in_year [1..<y]) + sum_list (map (days_in_month y) [1..<m]) + d"

definition instant :: "datetime \<Rightarrow> nat" where
  "instant d =
     (((ordinal (year d) (month d) (day d) * 24 + hour d) * 60 + minute d) * 60 + second d)
       * 1000000 + microsecond d"

text \<open>The fixed format \<open>YYYY-MM-DDTHH:MM:SSZ\<close> of a date and time.\<close>

definition pad2 :: "nat \<Rightarrow> string" where
  "pad2 n = [digit_char (n div 10), digit_char n]"

definition pad4 :: "nat \<Rightarrow> string" where
  "pad4 n = [digit_char (n div 1000), digit_char (n div 100), digit_char (n div 10), digit_char n]"

definition fixed_format :: "datetime \<Rightarrow> string" where
  "fixed_format d =
     pad4 (year d) @ ''-'' @ pad2 (month d) @ ''-'' @ pad2 (day d) @ ''T'' @
     pad2 (hour d) @ '':'' @ pad2 (minute d) @ '':'' @ pad2 (second d) @ ''Z''"

text \<open>The commit record of the example, and a naive date and time.\<close>

definition commit_dated :: "string \<Rightarrow> pyval" where
  "commit_dated s = PyDict [(''commit'', PyDict [(''author'', PyDict [(''date'', PyStr s)])])]"

definition naive :: "nat \<Rightarrow> nat \<Rightarrow> nat \<Rightarrow> nat \<Rightarrow> nat \<Rightarrow> nat \<Rightarrow> datetime" where
  "naive y m d H M S =
     \<lparr>year = y, month = m, day = d, hour = H, minute = M, second = S, microsecond = 0,
      utcoffset = None\<rparr>"

section \<open>Properties of the paginated fetch\<close>

lemma finish_requests [simp]: "requests (snd (finish d w)) = requests w"
  by (simp add: finish_def logger_info_def split: sum.splits)

lemma loop_requests:
  "1 \<le> p \<Longrightarrow> \<exists>m. 1 \<le> m \<and> p + m \<le> max max_pages (p + 1) \<and>
     requests (snd (paginate_loop srv u p d w)) = requests w @ map (page_url u) [Suc p..<Suc p + m]"
proof (induction srv u p d w rule: paginate_loop.induct)
  case (1 srv url p d w)
  define pu where "pu = url @ ''&page='' @ str_nat (p + 1)"
  define w2 where "w2 = snd (http_request srv pu (logger_info (''Making paginated API call to '' @ pu) w))"
  have pu: "page_url url (Suc p) = pu" using 1(2) by (simp add: page_url_def pu_def)
  have w2: "requests w2 = requests w @ [pu]"
    by (simp add: w2_def http_request_def logger_info_def)
  show ?case
  proof (cases "\<exists>b bb. srv (length (requests w)) pu = Response (Inr b) \<and> py_len b = Inr max_elements_per_page
            \<and> py_extend d b = Inr bb \<and> p + 1 < max_pages")
    case True
    then obtain b bb where C: "srv (length (requests w)) pu = Response (Inr b)" "py_len b = Inr max_elements_per_page"
       "py_extend d b = Inr bb" "p + 1 < max_pages" by blast
    have step: "paginate_loop srv url p d w = paginate_loop srv url (p + 1) bb w2"
      using C by (subst paginate_loop.simps) (simp add: Let_def pu_def w2_def http_request_def logger_info_def)
    have "\<exists>m. 1 \<le> m \<and> (p + 1) + m \<le> max max_pages (p + 1 + 1) \<and>
       requests (snd (paginate_loop srv url (p + 1) bb w2)) = requests w2 @ map (page_url url) [Suc (p + 1)..<Suc (p + 1) + m]"
      using "1.IH"[of "p + 1" pu "logger_info (''Making paginated API call to '' @ pu) w" w2 "Inr b" b max_elements_per_page bb] C
      by (simp add: pu_def w2_def http_request_def logger_info_def)
    then obtain m where m: "1 \<le> m" "(p + 1) + m \<le> max max_pages (p + 1 + 1)"
      "requests (snd (paginate_loop srv url (p + 1) bb w2)) = requests w2 @ map (page_url url) [Suc (p + 1)..<Suc (p + 1) + m]"
      by blast
    have upt: "[Suc p..<Suc p + (m + 1)] = Suc p # [Suc (p + 1)..<Suc (p + 1) + m]"
      by (simp add: upt_conv_Cons)
    have bound: "p + (m + 1) \<le> max max_pages (p + 1)"
      using m(2) C(4) by (simp add: max_def split: if_splits)
    have "requests (snd (paginate_loop srv url p d w)) =
            requests w @ map (page_url url) [Suc p..<Suc p + (m + 1)]"
      unfolding step m(3) w2 upt by (simp add: pu)
    with bound show ?thesis
      by (intro exI[of _ "m + 1"]) simp
  next
    case False
    have "requests (snd (paginate_loop srv url p d w)) = requests w @ [pu]"
      using False
      by (subst paginate_loop.simps)
         (auto simp: Let_def pu_def http_request_def logger_info_def split: http_result.splits sum.splits)
    then show ?thesis
      by (intro exI[of _ 1]) (simp add: pu)
  qed
qed

lemma pages_world_0 [simp]: "pages_world u p 0 w = w"
  by (simp add: pages_world_def)

lemma pages_world_requests:
  "requests (pages_world u p m w) = requests w @ map (page_url u) [Suc p..<Suc p + m]"
  by (simp add: pages_world_def)

lemma pages_world_length [simp]:
  "length (requests (pages_world u p m w)) = length (requests w) + m"
  by (simp add: pages_world_def del: upt_Suc)

lemma pages_world_Suc: "pages_world u (Suc p) m (pages_world u p 1 w) = pages_world u p (Suc m) w"
proof -
  have "[Suc p..<Suc p + Suc m] = Suc p # [Suc (Suc p)..<Suc (Suc p) + m]"
    by (simp add: upt_conv_Cons)
  moreover have "[Suc p..<Suc p + 1] = [Suc p]"
    by simp
  ultimately show ?thesis
    unfolding pages_world_def by (simp del: upt_Suc)
qed

lemma loop_fail:
  assumes "srv (length (requests w)) (page_url u (Suc p)) = MaxRetryError" and "1 \<le> p"
  shows "paginate_loop srv u p d w = (Inr d, pages_world u p 1 w)"
  using assms
  by (subst paginate_loop.simps)
     (simp add: Let_def http_request_def logger_info_def page_url_def pages_world_def)

lemma loop_last:
  assumes "srv (length (requests w)) (page_url u (Suc p)) = Response (Inr (PyList q))"
    and "length q \<noteq> max_elements_per_page \<or> max_pages \<le> Suc p" and "1 \<le> p"
  shows "paginate_loop srv u p (PyList xs) w = finish (PyList (xs @ q)) (pages_world u p 1 w)"
  using assms
  by (subst paginate_loop.simps)
     (auto simp: Let_def http_request_def logger_info_def page_url_def pages_world_def)

lemma loop_next:
  assumes "srv (length (requests w)) (page_url u (Suc p)) = Response (Inr (PyList q))"
    and "length q = max_elements_per_page" and "Suc p < max_pages" and "1 \<le> p"
  shows "paginate_loop srv u p (PyList xs) w =
         paginate_loop srv u (Suc p) (PyList (xs @ q)) (pages_world u p 1 w)"
  using assms
  by (subst paginate_loop.simps)
     (simp add: Let_def http_request_def logger_info_def page_url_def pages_world_def)

lemma loop_full:
  assumes "\<forall>j<length qs. srv (length (requests w) + j) (page_url u (Suc p + j)) =
             Response (Inr (PyList (qs ! j))) \<and> length (qs ! j) = max_elements_per_page"
    and "p + length qs < max_pages" and "1 \<le> p"
  shows "paginate_loop srv u p (PyList xs) w =
         paginate_loop srv u (p + length qs) (PyList (xs @ concat qs)) (pages_world u p (length qs) w)"
  using assms
proof (induction qs arbitrary: p xs w)
  case Nil
  then show ?case by simp
next
  case (Cons q qs)
  have q: "srv (length (requests w)) (page_url u (Suc p)) = Response (Inr (PyList q))"
    "length q = max_elements_per_page"
    using Cons.prems(1)[rule_format, of 0] by simp_all
  have rest: "\<forall>j<length qs. srv (length (requests (pages_world u p 1 w)) + j) (page_url u (Suc (Suc p) + j)) =
             Response (Inr (PyList (qs ! j))) \<and> length (qs ! j) = max_elements_per_page"
    using Cons.prems(1) by (auto dest: spec[of _ "Suc j" for j])
  have "paginate_loop srv u p (PyList xs) w =
        paginate_loop srv u (Suc p) (PyList (xs @ q)) (pages_world u p 1 w)"
    using q Cons.prems by (intro loop_next) simp_all
  also have "\<dots> = paginate_loop srv u (Suc p + length qs) (PyList ((xs @ q) @ concat qs))
                (pages_world u (Suc p) (length qs) (pages_world u p 1 w))"
    using rest Cons.prems by (intro Cons.IH) simp_all
  finally show ?case
    unfolding pages_world_Suc by simp
qed

lemma first_world_requests [simp]: "requests (first_world u w) = requests w @ [u]"
  by (simp add: first_world_def)

lemma call_fail:
  assumes "srv (length (requests w)) (get_api_url e x) = MaxRetryError"
  shows "paginated_api_call srv e x w = (Inr PyNone, first_world (get_api_url e x) w)"
  using assms
  by (simp add: paginated_api_call_def Let_def http_request_def logger_info_def first_world_def)

lemma call_short:
  assumes "srv (length (requests w)) (get_api_url e x) = Response (Inr (PyList q))"
    and "length q \<noteq> max_elements_per_page"
  shows "paginated_api_call srv e x w = finish (PyList q) (first_world (get_api_url e x) w)"
  using assms
  by (simp add: paginated_api_call_def Let_def http_request_def logger_info_def first_world_def)

lemma call_full:
  assumes "srv (length (requests w)) (get_api_url e x) = Response (Inr (PyList q))"
    and "length q = max_elements_per_page"
  shows "paginated_api_call srv e x w =
         paginate_loop srv (get_api_url e x) 1 (PyList q) (first_world (get_api_url e x) w)"
  using assms
  by (simp add: paginated_api_call_def Let_def http_request_def logger_info_def first_world_def)

lemma call_requests:
  "\<exists>m. 1 \<le> m \<and> m \<le> max_pages \<and>
     requests (snd (paginated_api_call srv e x w)) =
       requests w @ map (page_url (get_api_url e x)) [1..<Suc m]"
proof (cases "\<exists>d. srv (length (requests w)) (get_api_url e x) = Response (Inr d) \<and>
                 py_len d = Inr max_elements_per_page")
  case True
  then obtain d where d: "srv (length (requests w)) (get_api_url e x) = Response (Inr d)"
    "py_len d = Inr max_elements_per_page" by blast
  let ?u = "get_api_url e x"
  have eq: "paginated_api_call srv e x w = paginate_loop srv ?u 1 d (first_world ?u w)"
    using d by (simp add: paginated_api_call_def Let_def http_request_def logger_info_def first_world_def)
  obtain m where m: "1 \<le> m" "1 + m \<le> max max_pages (1 + 1)"
    "requests (snd (paginate_loop srv ?u 1 d (first_world ?u w))) =
       requests (first_world ?u w) @ map (page_url ?u) [Suc 1..<Suc 1 + m]"
    using loop_requests[of 1 srv ?u d "first_world ?u w"] by auto
  have "[1..<Suc (Suc m)] = 1 # [Suc 1..<Suc 1 + m]"
    by (simp add: upt_conv_Cons)
  then have "requests (snd (paginated_api_call srv e x w)) =
       requests w @ map (page_url ?u) [1..<Suc (Suc m)]"
    unfolding eq m(3) by (simp add: page_url_def)
  moreover have "Suc m \<le> max_pages"
    using m(2) by (simp add: max_pages_def)
  ultimately show ?thesis
    by (intro exI[of _ "Suc m"]) simp
next
  case False
  then have "requests (snd (paginated_api_call srv e x w)) = requests w @ [get_api_url e x]"
    by (auto simp: paginated_api_call_def Let_def http_request_def logger_info_def
             split: http_result.splits sum.splits)
  then show ?thesis
    by (intro exI[of _ 1]) (simp add: page_url_def max_pages_def)
qed

lemma fetch_pages:
  assumes ne: "ps \<noteq> []"
    and srv: "\<forall>k<length ps. srv (length (requests w) + k) (page_url (get_api_url e x) (Suc k)) =
                Response (Inr (PyList (ps ! k)))"
    and full: "\<forall>k<length ps - 1. length (ps ! k) = max_elements_per_page"
    and stop: "length (last ps) \<noteq> max_elements_per_page \<or> length ps = max_pages"
    and cap: "length ps \<le> max_pages"
  shows "paginated_api_call srv e x w =
         finish (PyList (concat ps))
           (pages_world (get_api_url e x) 1 (length ps - 1) (first_world (get_api_url e x) w))"
proof -
  let ?u = "get_api_url e x"
  let ?w1 = "first_world ?u w"
  obtain q qs where ps: "ps = q # qs" using ne by (cases ps) auto
  have q: "srv (length (requests w)) ?u = Response (Inr (PyList q))"
    using srv[rule_format, of 0] by (simp add: ps page_url_def)
  show ?thesis
  proof (cases qs rule: rev_cases)
    case Nil
    then have "length q \<noteq> max_elements_per_page"
      using stop by (simp add: ps max_pages_def)
    then show ?thesis
      using q by (simp add: call_short ps Nil)
  next
    case (snoc rs r)
    have qfull: "length q = max_elements_per_page"
      using full[rule_format, of 0] by (simp add: ps snoc)
    have rs: "\<forall>j<length rs. srv (length (requests ?w1) + j) (page_url ?u (Suc 1 + j)) =
             Response (Inr (PyList (rs ! j))) \<and> length (rs ! j) = max_elements_per_page"
    proof (intro allI impI)
      fix j assume j: "j < length rs"
      have "srv (length (requests w) + Suc j) (page_url ?u (Suc (Suc j))) = Response (Inr (PyList (ps ! Suc j)))"
        using srv[rule_format, of "Suc j"] j by (simp add: ps snoc)
      moreover have "length (ps ! Suc j) = max_elements_per_page"
        using full[rule_format, of "Suc j"] j by (simp add: ps snoc)
      moreover have "ps ! Suc j = rs ! j"
        using j by (simp add: ps snoc nth_append)
      ultimately show "srv (length (requests ?w1) + j) (page_url ?u (Suc 1 + j)) =
             Response (Inr (PyList (rs ! j))) \<and> length (rs ! j) = max_elements_per_page"
        by simp
    qed
    have r: "srv (length (requests (pages_world ?u 1 (length rs) ?w1))) (page_url ?u (Suc (1 + length rs))) =
             Response (Inr (PyList r))"
      using srv[rule_format, of "Suc (length rs)"] by (simp add: ps snoc nth_append)
    have stop': "length r \<noteq> max_elements_per_page \<or> max_pages \<le> Suc (1 + length rs)"
      using stop by (auto simp: ps snoc)
    have lt: "1 + length rs < max_pages"
      using cap by (simp add: ps snoc)
    have "paginated_api_call srv e x w = paginate_loop srv ?u 1 (PyList q) ?w1"
      using q qfull by (rule call_full)
    also have "\<dots> = paginate_loop srv ?u (1 + length rs) (PyList (q @ concat rs))
                       (pages_world ?u 1 (length rs) ?w1)"
      using rs lt by (intro loop_full) simp_all
    also have "\<dots> = finish (PyList ((q @ concat rs) @ r))
                       (pages_world ?u (1 + length rs) 1 (pages_world ?u 1 (length rs) ?w1))"
      using r stop' by (intro loop_last) simp_all
    also have "pages_world ?u (1 + length rs) 1 (pages_world ?u 1 (length rs) ?w1) =
               pages_world ?u 1 (length rs + 1) ?w1"
      by (simp add: pages_world_def del: upt_Suc) (simp add: upt_add_eq_append)
    finally show ?thesis
      by (simp add: ps snoc)
  qed
qed

lemma fetch_fail:
  assumes ne: "ps \<noteq> []"
    and srv: "\<forall>k<length ps. srv (length (requests w) + k) (page_url (get_api_url e x) (Suc k)) =
                Response (Inr (PyList (ps ! k)))"
    and full: "\<forall>k<length ps. length (ps ! k) = max_elements_per_page"
    and fail: "srv (length (requests w) + length ps) (page_url (get_api_url e x) (Suc (length ps))) =
                MaxRetryError"
    and cap: "length ps < max_pages"
  shows "paginated_api_call srv e x w =
         (Inr (PyList (concat ps)),
          pages_world (get_api_url e x) 1 (length ps) (first_world (get_api_url e x) w))"
proof -
  let ?u = "get_api_url e x"
  let ?w1 = "first_world ?u w"
  obtain q qs where ps: "ps = q # qs" using ne by (cases ps) auto
  have q: "srv (length (requests w)) ?u = Response (Inr (PyList q))"
    using srv[rule_format, of 0] by (simp add: ps page_url_def)
  have qfull: "length q = max_elements_per_page"
    using full[rule_format, of 0] by (simp add: ps)
  have qs: "\<forall>j<length qs. srv (length (requests ?w1) + j) (page_url ?u (Suc 1 + j)) =
             Response (Inr (PyList (qs ! j))) \<and> length (qs ! j) = max_elements_per_page"
  proof (intro allI impI)
    fix j assume j: "j < length qs"
    show "srv (length (requests ?w1) + j) (page_url ?u (Suc 1 + j)) =
             Response (Inr (PyList (qs ! j))) \<and> length (qs ! j) = max_elements_per_page"
      using srv[rule_format, of "Suc j"] full[rule_format, of "Suc j"] j by (simp add: ps)
  qed
  have f: "srv (length (requests (pages_world ?u 1 (length qs) ?w1))) (page_url ?u (Suc (1 + length qs))) =
             MaxRetryError"
    using fail by (simp add: ps)
  have lt: "1 + length qs < max_pages"
    using cap by (simp add: ps)
  have "paginated_api_call srv e x w = paginate_loop srv ?u 1 (PyList q) ?w1"
    using q qfull by (rule call_full)
  also have "\<dots> = paginate_loop srv ?u (1 + length qs) (PyList (q @ concat qs))
                     (pages_world ?u 1 (length qs) ?w1)"
    using qs lt by (intro loop_full) simp_all
  also have "\<dots> = (Inr (PyList (q @ concat qs)),
                    pages_world ?u (1 + length qs) 1 (pages_world ?u 1 (length qs) ?w1))"
    using f by (intro loop_fail) simp_all
  also have "pages_world ?u (1 + length qs) 1 (pages_world ?u 1 (length qs) ?w1) =
               pages_world ?u 1 (length qs + 1) ?w1"
    by (simp add: pages_world_def del: upt_Suc) (simp add: upt_add_eq_append)
  finally show ?thesis
    by (simp add: ps)
qed

lemma str_nat_100: "str_nat 100 = ''100''"
  by (simp add: str_nat.simps digit_char_def)

lemma scripted_nth: "k < length rs \<Longrightarrow> scripted u rs k (page_url u (Suc k)) = rs ! k"
  by (simp add: scripted_def)

lemma forks_url: "get_api_url ''https://api.github.com/repos/foo/bar/forks'' None = ''https://api.github.com/repos/foo/bar/forks?per_page=100''"
  by (simp add: get_api_url_def max_elements_per_page_def str_nat_100)

lemma upt_1_Suc: "[1..<Suc (Suc m)] = 1 # [Suc 1..<Suc 1 + m]"
  by (subst upt_rec) simp

lemma map_page_url_1: "map (page_url u) [1..<Suc (Suc m)] = u # map (page_url u) [Suc 1..<Suc 1 + m]"
  unfolding upt_1_Suc by (simp add: page_url_def del: upt_Suc)

lemma finish_list [simp]: "fst (finish (PyList xs) w) = Inr (PyList xs)"
  by (simp add: finish_def)

text \<open>
  C1: if the first request of \<open>_paginated_api_call\<close> raises \<open>MaxRetryError\<close>, the
  call returns \<open>None\<close>, having made that one request.
\<close>

theorem first_failure_returns_none:
  assumes "srv (length (requests w)) (get_api_url api_endpoint extra_params) = MaxRetryError"
  shows "fst (paginated_api_call srv api_endpoint extra_params w) = Inr PyNone \<and>
         requests (snd (paginated_api_call srv api_endpoint extra_params w)) =
           requests w @ [get_api_url api_endpoint extra_params]"
  using assms by (simp add: call_fail)

theorem first_failure_returns_none_witness:
  "fst (paginated_api_call (scripted ''https://api.github.com/repos/foo/bar/forks?per_page=100'' [MaxRetryError])
         ''https://api.github.com/repos/foo/bar/forks'' None world0) = Inr PyNone"
  using first_failure_returns_none [of "scripted ''https://api.github.com/repos/foo/bar/forks?per_page=100'' [MaxRetryError]"
      world0 "''https://api.github.com/repos/foo/bar/forks''" None]
  by (simp add: scripted_def world0_def page_url_def get_api_url_def max_elements_per_page_def str_nat_100)

text \<open>
  C2: if the pages 1 to \<open>n - 1\<close> come back full and the request for page \<open>n\<close>, from
  the second to the tenth, raises \<open>MaxRetryError\<close>, the call returns the records of the
  pages 1 to \<open>n - 1\<close> in order; with the third of five pages failing these are the
  200 records of the first two.
\<close>

theorem later_failure_returns_partial:
  assumes "ps \<noteq> []" and "length ps < max_pages"
    and "\<forall>k<length ps. srv (length (requests w) + k) (page_url (get_api_url api_endpoint extra_params) (Suc k)) =
                Response (Inr (PyList (ps ! k)))"
    and "\<forall>k<length ps. length (ps ! k) = max_elements_per_page"
    and "srv (length (requests w) + length ps)
             (page_url (get_api_url api_endpoint extra_params) (Suc (length ps))) = MaxRetryError"
  shows "fst (paginated_api_call srv api_endpoint extra_params w) = Inr (PyList (concat ps)) \<and>
         requests (snd (paginated_api_call srv api_endpoint extra_params w)) =
           requests w @ map (page_url (get_api_url api_endpoint extra_params)) [1..<Suc (Suc (length ps))]"
proof -
  let ?u = "get_api_url api_endpoint extra_params"
  have eq: "paginated_api_call srv api_endpoint extra_params w =
              (Inr (PyList (concat ps)), pages_world ?u 1 (length ps) (first_world ?u w))"
    using assms by (intro fetch_fail) simp_all
  have "[1..<Suc (Suc (length ps))] = 1 # [Suc 1..<Suc 1 + length ps]"
    by (subst upt_rec) simp
  then have "map (page_url ?u) [1..<Suc (Suc (length ps))] =
             ?u # map (page_url ?u) [Suc 1..<Suc 1 + length ps]"
    by (simp add: page_url_def del: upt_Suc)
  then show ?thesis
    unfolding eq by (simp add: pages_world_requests del: upt_Suc)
qed

theorem later_failure_returns_partial_witness:
  "fst (paginated_api_call
          (scripted ''https://api.github.com/repos/foo/bar/forks?per_page=100''
             [json_array (records 100 1), json_array (records 100 2), MaxRetryError,
              json_array (records 100 4), json_array (records 100 5)])
          ''https://api.github.com/repos/foo/bar/forks'' None world0)
     = Inr (PyList (records 100 1 @ records 100 2))
   \<and> length (records 100 1 @ records 100 2) = 200"
  using later_failure_returns_partial [of "[records 100 1, records 100 2]"
          "scripted ''https://api.github.com/repos/foo/bar/forks?per_page=100''
             [json_array (records 100 1), json_array (records 100 2), MaxRetryError,
              json_array (records 100 4), json_array (records 100 5)]"
          world0 "''https://api.github.com/repos/foo/bar/forks''" None]
  by (simp add: forks_url scripted_nth world0_def max_pages_def max_elements_per_page_def
        records_def json_array_def All_less_Suc nth_Cons')

text \<open>
  C3: whatever the responses are, the call makes between one and ten requests, for
  consecutive pages from the first; against an endpoint that answers every request with
  100 records it makes exactly ten and returns 1000 records.
\<close>

theorem fetch_bounded:
  "(\<exists>m. 1 \<le> m \<and> m \<le> 10 \<and>
      requests (snd (paginated_api_call srv api_endpoint extra_params w)) =
        requests w @ map (page_url (get_api_url api_endpoint extra_params)) [1..<Suc m]) \<and>
   ((\<forall>k v. srv k v = Response (Inr (PyList (page k v))) \<and> length (page k v) = 100) \<longrightarrow>
      (\<exists>xs. fst (paginated_api_call srv api_endpoint extra_params w) = Inr (PyList xs) \<and>
            length xs = 1000) \<and>
      length (requests (snd (paginated_api_call srv api_endpoint extra_params w))) =
        length (requests w) + 10)"
proof (intro conjI impI)
  show "\<exists>m. 1 \<le> m \<and> m \<le> 10 \<and>
      requests (snd (paginated_api_call srv api_endpoint extra_params w)) =
        requests w @ map (page_url (get_api_url api_endpoint extra_params)) [1..<Suc m]"
    using call_requests[of srv api_endpoint extra_params w] by (simp add: max_pages_def)
next
  let ?u = "get_api_url api_endpoint extra_params"
  assume all: "\<forall>k v. srv k v = Response (Inr (PyList (page k v))) \<and> length (page k v) = 100"
  define ps where "ps = map (\<lambda>k. page (length (requests w) + k) (page_url ?u (Suc k))) [0..<10]"
  have len: "length ps = 10" by (simp add: ps_def)
  have nth: "ps ! k = page (length (requests w) + k) (page_url ?u (Suc k))" if "k < 10" for k
    using that unfolding ps_def by (subst nth_map) (simp_all del: upt_Suc)
  have eq: "paginated_api_call srv api_endpoint extra_params w =
              finish (PyList (concat ps)) (pages_world ?u 1 (length ps - 1) (first_world ?u w))"
  proof (rule fetch_pages)
    show "ps \<noteq> []" using len by auto
    show "\<forall>k<length ps. srv (length (requests w) + k) (page_url ?u (Suc k)) = Response (Inr (PyList (ps ! k)))"
      using all by (simp add: len nth)
    show "\<forall>k<length ps - 1. length (ps ! k) = max_elements_per_page"
      using all by (simp add: len nth max_elements_per_page_def)
    show "length (last ps) \<noteq> max_elements_per_page \<or> length ps = max_pages"
      by (simp add: len max_pages_def)
    show "length ps \<le> max_pages"
      by (simp add: len max_pages_def)
  qed
  have "\<forall>q \<in> set ps. length q = 100"
    using all by (auto simp: ps_def)
  then have "length (concat ps) = length ps * 100"
    by (induction ps) auto
  then have "length (concat ps) = 1000"
    by (simp add: len)
  then show "\<exists>xs. fst (paginated_api_call srv api_endpoint extra_params w) = Inr (PyList xs) \<and>
            length xs = 1000"
    unfolding eq by simp
  show "length (requests (snd (paginated_api_call srv api_endpoint extra_params w))) =
        length (requests w) + 10"
    unfolding eq by (simp add: len)
qed

theorem fetch_bounded_witness:
  "(\<exists>xs. fst (paginated_api_call endless ''https://api.github.com/repos/foo/bar/forks'' None world0) = Inr (PyList xs) \<and>
            length xs = 1000) \<and>
      length (requests (snd (paginated_api_call endless ''https://api.github.com/repos/foo/bar/forks'' None world0))) = 10"
  using fetch_bounded [of endless "''https://api.github.com/repos/foo/bar/forks''" None world0
           "\<lambda>k v. replicate 100 (PyInt (int k))"]
  by (simp add: endless_def world0_def)

text \<open>
  C4: without failures the call returns the records of all pages fetched, in the order
  fetched, and has requested exactly these pages: the pages up to the first one that
  is not full, or the first ten. Three pages of 100 records and one of 40 give four
  requests and 340 records.
\<close>

theorem fetch_returns_all_pages:
  assumes "ps \<noteq> []" and "length ps \<le> max_pages"
    and "\<forall>k<length ps. srv (length (requests w) + k) (page_url (get_api_url api_endpoint extra_params) (Suc k)) =
                Response (Inr (PyList (ps ! k)))"
    and "\<forall>k<length ps - 1. length (ps ! k) = max_elements_per_page"
    and "length (last ps) \<noteq> max_elements_per_page \<or> length ps = max_pages"
  shows "fst (paginated_api_call srv api_endpoint extra_params w) = Inr (PyList (concat ps)) \<and>
         requests (snd (paginated_api_call srv api_endpoint extra_params w)) =
           requests w @ map (page_url (get_api_url api_endpoint extra_params)) [1..<Suc (length ps)]"
proof -
  let ?u = "get_api_url api_endpoint extra_params"
  have eq: "paginated_api_call srv api_endpoint extra_params w =
              finish (PyList (concat ps)) (pages_world ?u 1 (length ps - 1) (first_world ?u w))"
    using assms by (intro fetch_pages) simp_all
  obtain m where m: "length ps = Suc m"
    using assms(1) by (cases ps) auto
  have "requests (pages_world ?u 1 m (first_world ?u w)) =
          (requests w @ [?u]) @ map (page_url ?u) [Suc 1..<Suc 1 + m]"
    by (simp only: pages_world_requests first_world_requests)
  also have "\<dots> = requests w @ map (page_url ?u) [1..<Suc (Suc m)]"
    by (simp only: map_page_url_1 append_assoc append.simps)
  finally show ?thesis
    unfolding eq m by simp
qed

theorem fetch_returns_all_pages_witness:
  "fst (paginated_api_call
          (scripted ''https://api.github.com/repos/foo/bar/forks?per_page=100''
             [json_array (records 100 1), json_array (records 100 2), json_array (records 100 3),
              json_array (records 40 4)])
          ''https://api.github.com/repos/foo/bar/forks'' None world0)
     = Inr (PyList (records 100 1 @ records 100 2 @ records 100 3 @ records 40 4))
   \<and> length (records 100 1 @ records 100 2 @ records 100 3 @ records 40 4) = 340
   \<and> requests (snd (paginated_api_call
          (scripted ''https://api.github.com/repos/foo/bar/forks?per_page=100''
             [json_array (records 100 1), json_array (records 100 2), json_array (records 100 3),
              json_array (records 40 4)])
          ''https://api.github.com/repos/foo/bar/forks'' None world0))
     = [''https://api.github.com/repos/foo/bar/forks?per_page=100'',
        ''https://api.github.com/repos/foo/bar/forks?per_page=100&page=2'',
        ''https://api.github.com/repos/foo/bar/forks?per_page=100&page=3'',
        ''https://api.github.com/repos/foo/bar/forks?per_page=100&page=4'']"
proof -
  let ?u = "''https://api.github.com/repos/foo/bar/forks?per_page=100''"
  let ?ps = "[records 100 1, records 100 2, records 100 3, records 40 4]"
  let ?srv = "scripted ?u [json_array (records 100 1), json_array (records 100 2),
                           json_array (records 100 3), json_array (records 40 4)]"
  have served: "\<forall>k<length ?ps. ?srv (length (requests world0) + k)
                  (page_url (get_api_url ''https://api.github.com/repos/foo/bar/forks'' None) (Suc k)) =
                Response (Inr (PyList (?ps ! k)))"
    by (simp add: forks_url scripted_nth world0_def json_array_def All_less_Suc)
  have full: "\<forall>k<length ?ps - 1. length (?ps ! k) = max_elements_per_page"
    by (simp add: records_def max_elements_per_page_def All_less_Suc)
  have stop: "length (last ?ps) \<noteq> max_elements_per_page \<or> length ?ps = max_pages"
    by (simp add: records_def max_elements_per_page_def)
  have urls: "map (page_url ?u) [1..<Suc (length ?ps)] =
                [?u, ?u @ ''&page=2'', ?u @ ''&page=3'', ?u @ ''&page=4'']"
    by (simp add: page_url_def str_nat.simps digit_char_def upt_rec)
  show ?thesis
    using fetch_returns_all_pages [of ?ps ?srv world0 "''https://api.github.com/repos/foo/bar/forks''" None,
            OF _ _ served full stop] urls
    by (simp add: forks_url max_pages_def world0_def records_def)
qed

section \<open>Date comparison\<close>

lemma digit_cases: "d < 10 \<Longrightarrow> d = 0 \<or> d = 1 \<or> d = 2 \<or> d = 3 \<or> d = 4 \<or> d = 5 \<or> d = 6 \<or> d = 7 \<or> d = 8 \<or> d = (9::nat)"
  by arith

lemma digit_of_digit_char: "d < 10 \<Longrightarrow> digit_of (digit_char d) = Some d"
  by (drule digit_cases) (elim disjE, simp_all add: digit_of_def digit_char_def)

lemma digit_char_in: "d < 10 \<Longrightarrow> digit_char d \<in> set ''0123456789''"
  by (drule digit_cases) (elim disjE, simp_all add: digit_char_def)

lemma re_digit_char:
  "d < 10 \<Longrightarrow> re_digit lo hi (digit_char d # r) = (if lo \<le> d \<and> d \<le> hi then [(d, r)] else [])"
  by (simp add: re_digit_def digit_of_digit_char)

lemma re_two_chars:
  "x < 10 \<Longrightarrow> y < 10 \<Longrightarrow> re_two a b c d (digit_char x # digit_char y # r) =
     (if a \<le> x \<and> x \<le> b \<and> c \<le> y \<and> y \<le> d then [(10 * x + y, r)] else [])"
  by (auto simp: re_two_def re_digit_char)

lemma re_char_digit:
  "d < 10 \<Longrightarrow> CHR ''0'' \<notin> set cs \<Longrightarrow> CHR ''1'' \<notin> set cs \<Longrightarrow> CHR ''2'' \<notin> set cs \<Longrightarrow> CHR ''3'' \<notin> set cs \<Longrightarrow> CHR ''4'' \<notin> set cs \<Longrightarrow>
   CHR ''5'' \<notin> set cs \<Longrightarrow> CHR ''6'' \<notin> set cs \<Longrightarrow> CHR ''7'' \<notin> set cs \<Longrightarrow> CHR ''8'' \<notin> set cs \<Longrightarrow> CHR ''9'' \<notin> set cs \<Longrightarrow>
   re_char cs (digit_char d # r) = []"
  using digit_char_in[of d] by (auto simp: re_char_def)

lemma re_digit_nondigit:
  "digit_of c = None \<Longrightarrow> re_digit lo hi (c # r) = []"
  by (simp add: re_digit_def)

lemma pad2_digits:
  assumes "n < 100"
  obtains a b where "a < 10" "b < 10" "n = 10 * a + b" "pad2 n = [digit_char a, digit_char b]"
proof
  show "n div 10 < 10" using assms by simp
  show "n mod 10 < 10" by simp
  show "n = 10 * (n div 10) + n mod 10" by simp
  show "pad2 n = [digit_char (n div 10), digit_char (n mod 10)]"
    by (simp add: pad2_def digit_char_def)
qed

lemma re_char_hit:
  "c \<in> set cs \<Longrightarrow> re_char cs (c # r) = [r]"
  by (simp add: re_char_def)

lemmas field_simps' = then_char_def re_two_chars re_digit_char re_char_digit re_char_hit

lemma digit_char_mod: "digit_char (x mod 10) = digit_char x"
  by (simp add: digit_char_def)

lemma then_char_Y:
  assumes "n \<le> 9999"
  shows "then_char directive_Y ''-'' (pad4 n @ CHR ''-'' # r) = [(n, r)]"
proof -
  define q1 where "q1 = n div 10"
  define q2 where "q2 = q1 div 10"
  define q3 where "q3 = q2 div 10"
  define e where "e = n mod 10"
  define c where "c = q1 mod 10"
  define b where "b = q2 mod 10"
  have "n div (10 * 10) = q2" "n div (10 * 10 * 10) = q3"
    unfolding q1_def q2_def q3_def div_mult2_eq by simp_all
  then have q: "n div 100 = q2" "n div 1000 = q3"
    by simp_all
  have n: "n = 10 * q1 + e" "q1 = 10 * q2 + c" "q2 = 10 * q3 + b"
    by (simp_all add: q1_def q2_def q3_def e_def c_def b_def)
  have lt: "q3 < 10" "b < 10" "c < 10" "e < 10"
    using assms q(2) by (simp_all add: e_def c_def b_def)
  have pad: "pad4 n = [digit_char q3, digit_char b, digit_char c, digit_char e]"
    by (simp add: pad4_def q digit_char_mod q1_def e_def c_def b_def)
  have val: "1000 * q3 + 100 * b + (10 * c + e) = n"
    using n by simp
  show ?thesis
    unfolding pad using lt
    by (simp add: directive_Y_def field_simps' val)
qed

lemma then_char_m:
  assumes "1 \<le> n" "n \<le> 12"
  shows "then_char directive_m ''-'' (pad2 n @ CHR ''-'' # r) = [(n, r)]"
proof -
  obtain a b where ab: "a < 10" "b < 10" "n = 10 * a + b" "pad2 n = [digit_char a, digit_char b]"
    using assms by (auto intro: pad2_digits[of n])
  show ?thesis
    using assms ab(1-3) unfolding ab(4)
    by (auto simp: directive_m_def field_simps')
qed

lemma then_char_d:
  assumes "1 \<le> n" "n \<le> 31"
  shows "then_char directive_d ''Tt'' (pad2 n @ CHR ''T'' # r) = [(n, r)]"
proof -
  obtain a b where ab: "a < 10" "b < 10" "n = 10 * a + b" "pad2 n = [digit_char a, digit_char b]"
    using assms by (auto intro: pad2_digits[of n])
  show ?thesis
    using assms ab(1-3) unfolding ab(4)
    by (auto simp: directive_d_def field_simps')
qed

lemma then_char_H:
  assumes "n < 24"
  shows "then_char directive_H '':'' (pad2 n @ CHR '':'' # r) = [(n, r)]"
proof -
  obtain a b where ab: "a < 10" "b < 10" "n = 10 * a + b" "pad2 n = [digit_char a, digit_char b]"
    using assms by (auto intro: pad2_digits[of n])
  show ?thesis
    using assms ab(1-3) unfolding ab(4)
    by (auto simp: directive_H_def field_simps')
qed

lemma then_char_M:
  assumes "n < 60"
  shows "then_char directive_M '':'' (pad2 n @ CHR '':'' # r) = [(n, r)]"
proof -
  obtain a b where ab: "a < 10" "b < 10" "n = 10 * a + b" "pad2 n = [digit_char a, digit_char b]"
    using assms by (auto intro: pad2_digits[of n])
  show ?thesis
    using assms ab(1-3) unfolding ab(4)
    by (auto simp: directive_M_def field_simps')
qed

lemma then_char_S:
  assumes "n < 60"
  shows "then_char directive_S ''Zz'' (pad2 n @ CHR ''Z'' # r) = [(n, r)]"
proof -
  obtain a b where ab: "a < 10" "b < 10" "n = 10 * a + b" "pad2 n = [digit_char a, digit_char b]"
    using assms by (auto intro: pad2_digits[of n])
  show ?thesis
    using assms ab(1-3) unfolding ab(4)
    by (auto simp: directive_S_def field_simps')
qed

lemma month_cases:
  "1 \<le> m \<Longrightarrow> m \<le> 12 \<Longrightarrow>
   m = 1 \<or> m = 2 \<or> m = 3 \<or> m = 4 \<or> m = 5 \<or> m = 6 \<or> m = 7 \<or> m = 8 \<or> m = 9 \<or>
   m = 10 \<or> m = 11 \<or> m = (12::nat)"
  by arith

lemma days_in_month_bounds:
  assumes "1 \<le> m" "m \<le> 12"
  shows "28 \<le> days_in_month y m" "days_in_month y m \<le> 31"
  using month_cases[OF assms] by (auto simp: days_in_month_def)

lemma format_regex_fixed:
  assumes "valid_datetime d"
  shows "format_regex (fixed_format d) = [(d\<lparr>microsecond := 0, utcoffset := None\<rparr>, [])]"
proof -
  have b: "year d \<le> 9999" "1 \<le> month d" "month d \<le> 12" "1 \<le> day d" "day d \<le> 31"
    "hour d < 24" "minute d < 60" "second d < 60"
    using assms days_in_month_bounds(2)[of "month d" "year d"] by (auto simp: valid_datetime_def)
  show ?thesis
    unfolding format_regex_def fixed_format_def
    by (simp add: then_char_Y[OF b(1)] then_char_m[OF b(2,3)] then_char_d[OF b(4,5)]
          then_char_H[OF b(6)] then_char_M[OF b(7)] then_char_S[OF b(8)])
qed


lemma strptime_fixed:
  assumes "valid_datetime d"
  shows "strptime (PyStr (fixed_format d)) = Inr (d\<lparr>microsecond := 0, utcoffset := None\<rparr>)"
  using assms by (auto simp: strptime_def format_regex_fixed valid_datetime_def)

lemma sum_upt_step:
  fixes f :: "nat \<Rightarrow> nat"
  assumes "a \<le> i" "i < j"
  shows "sum_list (map f [a..<i]) + f i \<le> sum_list (map f [a..<j])"
proof -
  have "[a..<j] = [a..<Suc i] @ [Suc i..<j]"
    using assms upt_add_eq_append[of a "Suc i" "j - Suc i"] by simp
  moreover have "[a..<Suc i] = [a..<i] @ [i]"
    using assms by simp
  ultimately show ?thesis
    by simp
qed

lemma year_total: "sum_list (map (days_in_month y) [1..<13]) = days_in_year y"
  by (simp add: upt_rec days_in_month_def days_in_year_def)

lemma ordinal_mono:
  assumes a: "1 \<le> y" "1 \<le> m" "m \<le> 12" "1 \<le> d" "d \<le> days_in_month y m"
    and b: "1 \<le> y'" "1 \<le> m'" "m' \<le> 12" "1 \<le> d'" "d' \<le> days_in_month y' m'"
    and less: "(y, m, d) < (y', m', d')"
  shows "ordinal y m d < ordinal y' m' d'"
proof -
  consider "y < y'" | "y = y'" "m < m'" | "y = y'" "m = m'" "d < d'"
    using less by (auto simp: less_prod_def le_less)
  then show ?thesis
  proof cases
    case 1
    have "sum_list (map (days_in_month y) [1..<m]) + days_in_month y m \<le>
          sum_list (map (days_in_month y) [1..<13])"
      using a by (intro sum_upt_step) simp_all
    then have "sum_list (map (days_in_month y) [1..<m]) + days_in_month y m \<le> days_in_year y"
      unfolding year_total .
    moreover have "sum_list (map days_in_year [1..<y]) + days_in_year y \<le> sum_list (map days_in_year [1..<y'])"
      using sum_upt_step[of 1 y y' days_in_year] a 1 by simp
    ultimately show ?thesis
      using a b unfolding ordinal_def by linarith
  next
    case 2
    have "sum_list (map (days_in_month y) [1..<m]) + days_in_month y m \<le> sum_list (map (days_in_month y) [1..<m'])"
      using sum_upt_step[of 1 m m' "days_in_month y"] a 2 by simp
    then show ?thesis
      using a b 2 by (simp add: ordinal_def)
  next
    case 3
    then show ?thesis by (simp add: ordinal_def)
  qed
qed

lemma radix_less:
  fixes q q' x x' r :: nat
  assumes "q < q'" "x < r"
  shows "q * r + x < q' * r + x'"
proof -
  have "q * r + x < Suc q * r" using assms(2) by simp
  also have "\<dots> \<le> q' * r" using assms(1) by (intro mult_le_mono1) simp
  finally show ?thesis by simp
qed

lemma instant_mono:
  assumes "valid_datetime a" "valid_datetime b" "dt_tuple a < dt_tuple b"
  shows "instant a < instant b"
proof -
  define l0 where "l0 d = ordinal (year d) (month d) (day d)"  for d :: datetime
  define l1 where "l1 d = l0 d * 24 + hour d"  for d :: datetime
  define l2 where "l2 d = l1 d * 60 + minute d"  for d :: datetime
  define l3 where "l3 d = l2 d * 60 + second d"  for d :: datetime
  have inst: "instant d = l3 d * 1000000 + microsecond d" for d :: datetime
    by (simp add: instant_def l3_def l2_def l1_def l0_def)
  have va: "hour a < 24" "minute a < 60" "second a < 60" "microsecond a < 1000000"
    using assms by (simp_all add: valid_datetime_def)
  have step1: "l1 a < l1 b" if "l0 a < l0 b"
    unfolding l1_def using that va(1) by (rule radix_less)
  have step2: "l2 a < l2 b" if "l1 a < l1 b"
    unfolding l2_def using that va(2) by (rule radix_less)
  have step3: "l3 a < l3 b" if "l2 a < l2 b"
    unfolding l3_def using that va(3) by (rule radix_less)
  have step4: "instant a < instant b" if "l3 a < l3 b"
    unfolding inst using that va(4) by (rule radix_less)
  consider "(year a, month a, day a) < (year b, month b, day b)"
    | "l0 a = l0 b" "hour a < hour b"
    | "l1 a = l1 b" "minute a < minute b"
    | "l2 a = l2 b" "second a < second b"
    | "l3 a = l3 b" "microsecond a < microsecond b"
    using assms(3) by (auto simp: dt_tuple_def less_prod_def le_less l0_def l1_def l2_def l3_def)
  then show ?thesis
  proof cases
    case 1
    then have "l0 a < l0 b"
      unfolding l0_def using assms(1,2) by (intro ordinal_mono) (simp_all add: valid_datetime_def)
    then show ?thesis
      by (intro step4 step3 step2 step1)
  next
    case 2
    then have "l1 a < l1 b" by (simp add: l1_def)
    then show ?thesis by (intro step4 step3 step2)
  next
    case 3
    then have "l2 a < l2 b" by (simp add: l2_def)
    then show ?thesis by (intro step4 step3)
  next
    case 4
    then have "l3 a < l3 b" by (simp add: l3_def)
    then show ?thesis by (intro step4)
  next
    case 5
    then show ?thesis by (simp add: inst)
  qed
qed

lemma instant_less_iff:
  assumes "valid_datetime a" "valid_datetime b"
  shows "(dt_tuple a < dt_tuple b) = (instant a < instant b)"
proof
  assume "dt_tuple a < dt_tuple b"
  then show "instant a < instant b" using assms by (intro instant_mono)
next
  assume l: "instant a < instant b"
  show "dt_tuple a < dt_tuple b"
  proof (rule ccontr)
    assume "\<not> dt_tuple a < dt_tuple b"
    then consider "dt_tuple a = dt_tuple b" | "dt_tuple b < dt_tuple a"
      by (auto simp: not_less le_less)
    then show False
    proof cases
      case 1
      then have "instant a = instant b" by (simp add: dt_tuple_def instant_def)
      with l show False by simp
    next
      case 2
      then have "instant b < instant a" using assms by (intro instant_mono)
      with l show False by simp
    qed
  qed
qed

lemma valid_naive:
  "valid_datetime (naive y m d H M S) =
     (1 \<le> y \<and> y \<le> 9999 \<and> 1 \<le> m \<and> m \<le> 12 \<and> 1 \<le> d \<and> d \<le> days_in_month y m \<and>
      H < 24 \<and> M < 60 \<and> S < 60)"
  by (simp add: valid_datetime_def naive_def)

lemma commit_dated_lookup:
  "py_getitem (commit_dated s) ''commit'' = Inr (PyDict [(''author'', PyDict [(''date'', PyStr s)])])"
  "py_getitem (PyDict [(''author'', PyDict [(''date'', PyStr s)])]) ''author'' =
     Inr (PyDict [(''date'', PyStr s)])"
  "py_getitem (PyDict [(''date'', PyStr s)]) ''date'' = Inr (PyStr s)"
  by (simp_all add: commit_dated_def)

text \<open>
  C8, as the code has it: for a commit record whose \<open>commit.author.date\<close> is a valid
  date and time in the format \<open>YYYY-MM-DDTHH:MM:SSZ\<close>, \<open>is_commit_before_date\<close> returns,
  against a naive reference datetime, whether the commit date comes strictly before
  the reference on the time line, and raises \<open>TypeError\<close> against an aware one.
\<close>

theorem commit_before_naive_date:
  assumes "valid_datetime c" and "microsecond c = 0" and "valid_datetime ref"
    and "py_getitem commit ''commit'' = Inr x" and "py_getitem x ''author'' = Inr y"
    and "py_getitem y ''date'' = Inr (PyStr (fixed_format c))"
  shows "is_commit_before_date commit ref =
           (if utcoffset ref = None then Inr (instant c < instant ref) else Inl TypeError)"
proof -
  let ?c = "c\<lparr>microsecond := 0, utcoffset := None\<rparr>"
  have v: "valid_datetime ?c" and i: "instant ?c = instant c"
    using assms(1,2) by (simp_all add: valid_datetime_def instant_def)
  have "is_commit_before_date commit ref = naive_lt ?c ref"
    using assms by (simp add: is_commit_before_date_def strptime_fixed)
  also have "\<dots> = (if utcoffset ref = None then Inr (instant c < instant ref) else Inl TypeError)"
    using instant_less_iff[OF v assms(3)] by (auto simp: naive_lt_def i)
  finally show ?thesis .
qed

theorem commit_before_naive_date_witness:
  "is_commit_before_date (commit_dated ''2020-01-01T00:00:00Z'') (naive 2021 1 1 0 0 0) = Inr True \<and>
   is_commit_before_date (commit_dated ''2021-01-01T00:00:00Z'') (naive 2020 1 1 0 0 0) = Inr False"
proof -
  let ?a = "naive 2020 1 1 0 0 0" and ?b = "naive 2021 1 1 0 0 0"
  have va: "valid_datetime ?a" and vb: "valid_datetime ?b"
    by (simp_all add: valid_naive days_in_month_def)
  have fa: "fixed_format ?a = ''2020-01-01T00:00:00Z''" and fb: "fixed_format ?b = ''2021-01-01T00:00:00Z''"
    by (simp_all add: fixed_format_def naive_def pad2_def pad4_def digit_char_def)
  have ab: "instant ?a < instant ?b" and ba: "\<not> instant ?b < instant ?a"
    using instant_less_iff[OF va vb] instant_less_iff[OF vb va]
    by (simp_all add: dt_tuple_def naive_def less_prod_def)
  have m: "microsecond ?a = 0" "microsecond ?b = 0" "utcoffset ?a = None" "utcoffset ?b = None"
    by (simp_all add: naive_def)
  show ?thesis
    using commit_before_naive_date[OF va m(1) vb commit_dated_lookup]
          commit_before_naive_date[OF vb m(2) va commit_dated_lookup] ab ba m
    unfolding fa fb by simp
qed

text \<open>
  Against C8 as stated: the commit of 2020 precedes the reference of 2021 in UTC, an
  aware datetime, and the comparison raises instead of returning \<open>True\<close>.
\<close>

theorem commit_before_aware_date_raises:
  "instant (naive 2020 1 1 0 0 0) < instant ((naive 2021 1 1 0 0 0)\<lparr>utcoffset := Some 0\<rparr>) \<and>
   is_commit_before_date (commit_dated ''2020-01-01T00:00:00Z'')
     ((naive 2021 1 1 0 0 0)\<lparr>utcoffset := Some 0\<rparr>) = Inl TypeError"
proof -
  let ?a = "naive 2020 1 1 0 0 0" and ?b = "(naive 2021 1 1 0 0 0)\<lparr>utcoffset := Some 0\<rparr>"
  have va: "valid_datetime ?a" and vb: "valid_datetime ?b"
    by (simp_all add: valid_datetime_def naive_def days_in_month_def)
  have fa: "fixed_format ?a = ''2020-01-01T00:00:00Z''"
    by (simp add: fixed_format_def naive_def pad2_def pad4_def digit_char_def)
  have "instant ?a < instant ?b"
    using instant_less_iff[OF va vb] by (simp add: dt_tuple_def naive_def less_prod_def)
  moreover have "strptime (PyStr ''2020-01-01T00:00:00Z'') = Inr (?a\<lparr>microsecond := 0, utcoffset := None\<rparr>)"
    using strptime_fixed[OF va] unfolding fa .
  then have "is_commit_before_date (commit_dated ''2020-01-01T00:00:00Z'') ?b = Inl TypeError"
    by (simp add: is_commit_before_date_def commit_dated_def naive_lt_def)
  ultimately show ?thesis by simp
qed

section \<open>URL construction\<close>

lemma call_first_request:
  "\<exists>rest. requests (snd (paginated_api_call srv e x w)) = requests w @ get_api_url e x # rest"
proof -
  obtain m where m: "1 \<le> m"
    "requests (snd (paginated_api_call srv e x w)) = requests w @ map (page_url (get_api_url e x)) [1..<Suc m]"
    using call_requests[of srv e x w] by blast
  obtain m' where "m = Suc m'"
    using m(1) by (cases m) auto
  then have "map (page_url (get_api_url e x)) [1..<Suc m] =
             get_api_url e x # map (page_url (get_api_url e x)) [Suc 1..<Suc 1 + m']"
    by (simp only: map_page_url_1)
  with m(2) have "requests (snd (paginated_api_call srv e x w)) =
      requests w @ get_api_url e x # map (page_url (get_api_url e x)) [Suc 1..<Suc 1 + m']"
    by (simp only:)
  then show ?thesis
    by (rule exI)
qed

text \<open>
  C5: \<open>get_api_url\<close> returns the endpoint, \<open>?\<close>, the extra parameters followed by \<open>&\<close>
  when there are any, and \<open>per_page=100\<close>; \<open>get_issues\<close> logs its message and is the
  paginated fetch of the issues endpoint of the repository with the extra parameter
  \<open>state=all\<close>, so that its first request goes to that endpoint with
  \<open>?state=all&per_page=100\<close>.
\<close>

theorem api_url_shape:
  "get_api_url api_endpoint None = api_endpoint @ ''?per_page=100'' \<and>
   get_api_url api_endpoint (Some (c # cs)) = api_endpoint @ ''?'' @ (c # cs) @ ''&per_page=100'' \<and>
   get_issues srv ow nm w =
     paginated_api_call srv (''https://api.github.com/repos/'' @ ow @ ''/'' @ nm @ ''/issues'')
       (Some ''state=all'') (logger_info (''Getting issues for repo: '' @ nm) w) \<and>
   (\<exists>rest. requests (snd (get_issues srv ow nm w)) =
      requests w @ (''https://api.github.com/repos/'' @ ow @ ''/'' @ nm @ ''/issues'' @
                    ''?state=all&per_page=100'') # rest)"
proof -
  have url: "get_api_url (''https://api.github.com/repos/'' @ ow @ ''/'' @ nm @ ''/issues'') (Some ''state=all'') =
        ''https://api.github.com/repos/'' @ ow @ ''/'' @ nm @ ''/issues'' @ ''?state=all&per_page=100''"
    by (simp add: get_api_url_def max_elements_per_page_def str_nat_100)
  have delegate: "get_issues srv ow nm w =
     paginated_api_call srv (''https://api.github.com/repos/'' @ ow @ ''/'' @ nm @ ''/issues'')
       (Some ''state=all'') (logger_info (''Getting issues for repo: '' @ nm) w)"
    by (simp add: get_issues_def Let_def)
  have first: "\<exists>rest. requests (snd (get_issues srv ow nm w)) =
      requests w @ (''https://api.github.com/repos/'' @ ow @ ''/'' @ nm @ ''/issues'' @
                    ''?state=all&per_page=100'') # rest"
    using url call_first_request[of srv "''https://api.github.com/repos/'' @ ow @ ''/'' @ nm @ ''/issues''"
            "Some ''state=all''" "logger_info (''Getting issues for repo: '' @ nm) w"]
    by (simp add: get_issues_def Let_def logger_info_def)
  have "get_api_url api_endpoint None = api_endpoint @ ''?per_page=100''"
    "get_api_url api_endpoint (Some (c # cs)) = api_endpoint @ ''?'' @ (c # cs) @ ''&per_page=100''"
    by (simp_all add: get_api_url_def max_elements_per_page_def str_nat_100)
  with delegate first show ?thesis
    by blast
qed

theorem api_url_shape_witness:
  "get_api_url ''https://api.github.com/repos/foo/bar/forks'' None =
     ''https://api.github.com/repos/foo/bar/forks?per_page=100'' \<and>
   get_api_url ''https://api.github.com/repos/foo/bar/issues'' (Some ''state=all'') =
     ''https://api.github.com/repos/foo/bar/issues?state=all&per_page=100'' \<and>
   get_issues small ''foo'' ''bar'' world0 =
     (Inr (PyList (records 3 0)),
      \<lparr>logged = [''Getting issues for repo: bar'',
                 ''Making first API call to https://api.github.com/repos/foo/bar/issues?state=all&per_page=100'',
                 ''Number of elements retrived: 3''],
       requests = [''https://api.github.com/repos/foo/bar/issues?state=all&per_page=100'']\<rparr>) \<and>
   fst (get_issues unreachable ''foo'' ''bar'' world0) = Inr PyNone \<and>
   (\<exists>rest. requests (snd (get_issues unreachable ''foo'' ''bar'' world0)) =
      ''https://api.github.com/repos/foo/bar/issues?state=all&per_page=100'' # rest)"
proof -
  let ?e = "''https://api.github.com/repos/foo/bar/issues''"
  let ?w = "logger_info (''Getting issues for repo: '' @ ''bar'') world0"
  have url: "get_api_url ?e (Some ''state=all'') =
               ''https://api.github.com/repos/foo/bar/issues?state=all&per_page=100''"
    by (simp add: get_api_url_def max_elements_per_page_def str_nat_100)
  have s: "paginated_api_call small ?e (Some ''state=all'') ?w =
             finish (PyList (records 3 0)) (first_world (get_api_url ?e (Some ''state=all'')) ?w)"
    by (rule call_short [where q = "records 3 0"])
       (simp_all add: small_def json_array_def records_def max_elements_per_page_def
          logger_info_def world0_def)
  have u: "paginated_api_call unreachable ?e (Some ''state=all'') ?w =
             (Inr PyNone, first_world (get_api_url ?e (Some ''state=all'')) ?w)"
    by (rule call_fail) (simp add: unreachable_def)
  have three: "str_nat 3 = ''3''"
    by (simp add: str_nat.simps digit_char_def)
  have "get_issues small ''foo'' ''bar'' world0 =
     (Inr (PyList (records 3 0)),
      \<lparr>logged = [''Getting issues for repo: bar'',
                 ''Making first API call to https://api.github.com/repos/foo/bar/issues?state=all&per_page=100'',
                 ''Number of elements retrived: 3''],
       requests = [''https://api.github.com/repos/foo/bar/issues?state=all&per_page=100'']\<rparr>)"
    using api_url_shape [of "[]" "CHR ''s''" "''tate=all''" small "''foo''" "''bar''" world0] s
    by (simp add: url finish_def first_world_def logger_info_def world0_def records_def three)
  moreover have "fst (get_issues unreachable ''foo'' ''bar'' world0) = Inr PyNone"
    using api_url_shape [of "[]" "CHR ''s''" "''tate=all''" unreachable "''foo''" "''bar''" world0] u
    by simp
  moreover have "get_api_url ''https://api.github.com/repos/foo/bar/forks'' None =
     ''https://api.github.com/repos/foo/bar/forks?per_page=100'' \<and>
   get_api_url ''https://api.github.com/repos/foo/bar/issues'' (Some ''state=all'') =
     ''https://api.github.com/repos/foo/bar/issues?state=all&per_page=100'' \<and>
   (\<exists>rest. requests (snd (get_issues unreachable ''foo'' ''bar'' world0)) =
      ''https://api.github.com/repos/foo/bar/issues?state=all&per_page=100'' # rest)"
    using api_url_shape [of "''https://api.github.com/repos/foo/bar/forks''" "CHR ''s''" "''tate=all''"
                            unreachable "''foo''" "''bar''" world0]
          api_url_shape [of "''https://api.github.com/repos/foo/bar/issues''" "CHR ''s''" "''tate=all''"
                          unreachable "''foo''" "''bar''" world0]
    by (simp add: world0_def)
  ultimately show ?thesis
    by blast
qed

text \<open>
  C10: an empty string as extra parameters gives the same URL as \<open>None\<close>, the endpoint
  followed by \<open>?per_page=100\<close>.
\<close>

theorem api_url_empty_params:
  "get_api_url api_endpoint (Some '''') = get_api_url api_endpoint None \<and>
   get_api_url api_endpoint (Some '''') = api_endpoint @ ''?per_page=100''"
  by (simp add: get_api_url_def max_elements_per_page_def str_nat_100)

theorem api_url_empty_params_witness:
  "get_api_url ''https://api.github.com/repos/foo/bar/forks'' (Some '''') =
     ''https://api.github.com/repos/foo/bar/forks?per_page=100''"
proof -
  have "get_api_url ''https://api.github.com/repos/foo/bar/forks'' (Some '''') =
          ''https://api.github.com/repos/foo/bar/forks'' @ ''?per_page=100''"
    using api_url_empty_params [of "''https://api.github.com/repos/foo/bar/forks''"]
    by (rule conjunct2)
  then show ?thesis
    by simp
qed

section \<open>URL resolution\<close>

lemma split_slash_plain: "CHR ''/'' \<notin> set s \<Longrightarrow> split_slash s = [s]"
  by (induction s) auto

lemma split_slash_append:
  "CHR ''/'' \<notin> set s \<Longrightarrow> split_slash (s @ CHR ''/'' # t) = s # split_slash t"
  by (induction s) auto

lemma split_join:
  "segs \<noteq> [] \<Longrightarrow> \<forall>s\<in>set segs. CHR ''/'' \<notin> set s \<Longrightarrow> split_slash (join_slash segs) = segs"
  by (induction segs rule: join_slash.induct) (simp_all add: split_slash_plain split_slash_append)

lemma split_slash_length: "length (split_slash u) = Suc (length (filter (\<lambda>c. c = CHR ''/'') u))"
  by (induction u) (auto split: list.splits)

lemma split_slash_segments: "\<forall>s\<in>set (split_slash u). CHR ''/'' \<notin> set s"
  by (induction u) (auto split: list.splits)

lemma join_split: "join_slash (split_slash u) = u"
proof (induction u)
  case Nil
  then show ?case by simp
next
  case (Cons c u)
  obtain p ps where ps: "split_slash u = p # ps"
    by (cases "split_slash u") (use split_slash_length[of u] in auto)
  show ?case
    using Cons by (cases ps) (auto simp: ps)
qed

lemma py_index_last: "xs \<noteq> [] \<Longrightarrow> py_index xs (- 1) = Inr (last xs)"
  by (cases xs rule: rev_cases) (simp_all add: py_index_def nth_append)

lemma py_index_before_last:
  "py_index xs (- 2) = (if 2 \<le> length xs then Inr (xs ! (length xs - 2)) else Inl IndexError)"
proof -
  have "nat (int (length xs) - 2) = length xs - 2"
    by simp
  then show ?thesis
    by (auto simp: py_index_def Let_def)
qed

lemma get_name_value: "fst (get_name u w) = Inr (last (split_slash u))"
proof -
  have "split_slash u \<noteq> []"
    using split_slash_length[of u] by auto
  then show ?thesis
    by (simp add: get_name_def parse_github_url_def py_index_last)
qed

lemma get_owner_value:
  "fst (get_owner u w) =
     (if 2 \<le> length (split_slash u) then Inr (split_slash u ! (length (split_slash u) - 2))
      else Inl IndexError)"
  by (simp add: get_owner_def parse_github_url_def py_index_before_last)

text \<open>
  C6: for a URL of two or more segments separated by slashes, \<open>get_owner\<close> returns the
  segment before the last one and \<open>get_name\<close> the last one.
\<close>

theorem owner_and_name_of_segments:
  assumes "\<forall>s\<in>set segs. CHR ''/'' \<notin> set s" and "2 \<le> length segs"
  shows "fst (get_owner (join_slash segs) w) = Inr (segs ! (length segs - 2)) \<and>
         fst (get_name (join_slash segs) w) = Inr (last segs)"
proof -
  have "split_slash (join_slash segs) = segs"
    using assms by (intro split_join) auto
  then show ?thesis
    using assms(2) by (simp add: get_owner_value get_name_value)
qed

theorem owner_and_name_of_segments_witness:
  "fst (get_owner ''https://github.com/foo/bar'' world0) = Inr ''foo'' \<and>
   fst (get_name ''https://github.com/foo/bar'' world0) = Inr ''bar''"
  using owner_and_name_of_segments [of "[''https:'', '''', ''github.com'', ''foo'', ''bar'']" world0]
  by simp

text \<open>
  C7, as the code has it: \<open>get_name\<close> never raises; \<open>get_owner\<close> returns a value for
  every URL with a slash in it, and raises \<open>IndexError\<close> for a URL without one.
\<close>

theorem malformed_url_behaviour:
  "fst (get_name u w) = Inr (last (split_slash u)) \<and>
   fst (get_owner u w) =
     (if CHR ''/'' \<in> set u then Inr (split_slash u ! (length (split_slash u) - 2))
      else Inl IndexError)"
proof -
  have "(2 \<le> length (split_slash u)) = (CHR ''/'' \<in> set u)"
  proof -
    have "(filter (\<lambda>c. c = CHR ''/'') u \<noteq> []) = (CHR ''/'' \<in> set u)"
      by (auto simp: filter_empty_conv)
    then show ?thesis
      unfolding split_slash_length by (cases "filter (\<lambda>c. c = CHR ''/'') u") auto
  qed
  then show ?thesis
    by (simp add: get_owner_value get_name_value)
qed

theorem malformed_url_behaviour_witness:
  "fst (get_name ''https://github.com/foo'' world0) = Inr ''foo'' \<and>
   fst (get_owner ''https://github.com/foo'' world0) = Inr ''github.com''"
  using malformed_url_behaviour [of "''https://github.com/foo''" world0]
  by simp

text \<open>
  Against C7 as stated: the URL \<open>foo\<close> has fewer than two segments, and \<open>get_owner\<close>
  raises on it.
\<close>

theorem get_owner_raises_without_slash:
  "length (split_slash ''foo'') < 2 \<and> fst (get_owner ''foo'' world0) = Inl IndexError"
  by (simp add: get_owner_def parse_github_url_def py_index_def)

section \<open>Total counts\<close>

lemma paginated_unreachable:
  "paginated_api_call unreachable e x w = (Inr PyNone, first_world (get_api_url e x) w)"
  by (rule call_fail) (simp add: unreachable_def)

lemma init_unreachable:
  "fst (init unreachable ''https://github.com/foo/bar'' world0) =
     Inr \<lparr>url = ''https://github.com/foo/bar'', owner = ''foo'', name = ''bar'',
          contributors = PyNone, forks = PyNone, releases = PyNone, stars = PyNone,
          issues = PyNone, commits = PyNone\<rparr>"
  by (simp add: init_def and_then_def get_owner_def get_name_def parse_github_url_def py_index_def
        get_contributors_def get_forks_def get_releases_def get_stars_def get_issues_def
        get_commits_def paginated_unreachable Let_def)

text \<open>
  C9: each total-count accessor returns the length of its collection when that is a list,
  and raises (\<open>TypeError\<close>) when it is \<open>None\<close>.
\<close>

theorem total_counts:
  "(contributors self = PyList xs \<longrightarrow> get_total_contributors self = Inr (length xs)) \<and>
   (forks self = PyList xs \<longrightarrow> get_total_forks self = Inr (length xs)) \<and>
   (releases self = PyList xs \<longrightarrow> get_total_releases self = Inr (length xs)) \<and>
   (issues self = PyList xs \<longrightarrow> get_total_issues self = Inr (length xs)) \<and>
   (commits self = PyList xs \<longrightarrow> get_total_commits self = Inr (length xs)) \<and>
   (contributors self = PyNone \<longrightarrow> get_total_contributors self = Inl TypeError) \<and>
   (forks self = PyNone \<longrightarrow> get_total_forks self = Inl TypeError) \<and>
   (releases self = PyNone \<longrightarrow> get_total_releases self = Inl TypeError) \<and>
   (issues self = PyNone \<longrightarrow> get_total_issues self = Inl TypeError) \<and>
   (commits self = PyNone \<longrightarrow> get_total_commits self = Inl TypeError)"
  by (simp add: get_total_contributors_def get_total_forks_def get_total_releases_def
        get_total_issues_def get_total_commits_def)

lemma paginated_small:
  "paginated_api_call small e x w =
     finish (PyList (records 3 (int (length (requests w))))) (first_world (get_api_url e x) w)"
  by (rule call_short) (simp_all add: small_def json_array_def records_def max_elements_per_page_def)

lemma finish_world:
  "snd (finish (PyList xs) w) =
     logger_info (''Number of elements retrived: '' @ str_nat (length xs)) w"
  by (simp add: finish_def)

lemma init_small:
  "fst (init small ''https://github.com/foo/bar'' world0) =
     Inr \<lparr>url = ''https://github.com/foo/bar'', owner = ''foo'', name = ''bar'',
          contributors = PyList (records 3 0), forks = PyList (records 3 1),
          releases = PyList (records 3 2), stars = PyNone,
          issues = PyList (records 3 3), commits = PyList (records 3 4)\<rparr>"
  by (simp add: init_def and_then_def get_owner_def get_name_def parse_github_url_def py_index_def
        get_contributors_def get_forks_def get_releases_def get_stars_def get_issues_def
        get_commits_def paginated_small finish_world Let_def logger_info_def world0_def)

theorem total_counts_witness:
  "(\<exists>r. fst (init small ''https://github.com/foo/bar'' world0) = Inr r \<and>
        get_total_contributors r = Inr 3 \<and> get_total_forks r = Inr 3 \<and>
        get_total_releases r = Inr 3 \<and> get_total_issues r = Inr 3 \<and>
        get_total_commits r = Inr 3) \<and>
   (\<exists>r. fst (init unreachable ''https://github.com/foo/bar'' world0) = Inr r \<and>
        get_total_contributors r = Inl TypeError \<and> get_total_forks r = Inl TypeError \<and>
        get_total_releases r = Inl TypeError \<and> get_total_issues r = Inl TypeError \<and>
        get_total_commits r = Inl TypeError)"
proof -
  let ?r1 = "\<lparr>url = ''https://github.com/foo/bar'', owner = ''foo'', name = ''bar'',
          contributors = PyList (records 3 0), forks = PyList (records 3 1),
          releases = PyList (records 3 2), stars = PyNone,
          issues = PyList (records 3 3), commits = PyList (records 3 4)\<rparr>"
  let ?r0 = "\<lparr>url = ''https://github.com/foo/bar'', owner = ''foo'', name = ''bar'',
          contributors = PyNone, forks = PyNone, releases = PyNone, stars = PyNone,
          issues = PyNone, commits = PyNone\<rparr>"
  have "get_total_contributors ?r1 = Inr 3 \<and> get_total_forks ?r1 = Inr 3 \<and>
        get_total_releases ?r1 = Inr 3 \<and> get_total_issues ?r1 = Inr 3 \<and>
        get_total_commits ?r1 = Inr 3"
    using total_counts [of ?r1 "records 3 0"] total_counts [of ?r1 "records 3 1"]
          total_counts [of ?r1 "records 3 2"] total_counts [of ?r1 "records 3 3"]
          total_counts [of ?r1 "records 3 4"]
    by (simp add: records_def)
  moreover have "get_total_contributors ?r0 = Inl TypeError \<and> get_total_forks ?r0 = Inl TypeError \<and>
        get_total_releases ?r0 = Inl TypeError \<and> get_total_issues ?r0 = Inl TypeError \<and>
        get_total_commits ?r0 = Inl TypeError"
    using total_counts [of ?r0] by simp
  ultimately show ?thesis
    unfolding init_small init_unreachable by blast
qed

end
